theory Spec2Isabelle
  imports Main
begin

section \<open>The simplified store of the core-internals guide\<close>

text \<open>
  The guide's second version is a store over atoms with derived values: \<open>atom\<close>,
  \<open>getAtomState\<close>, \<open>readAtom\<close>, \<open>notify\<close> and \<open>writeAtom\<close>.

  JavaScript values form one universe in which functions are values too. The store
  itself never inspects a value; only \<open>atom\<close> does (\<open>typeof arg === 'function'\<close>
  and the call \<open>arg(get(config))\<close>), so the universe is a type parameter \<open>'v\<close> and
  the three things \<open>atom\<close> needs from it are passed as a record.
\<close>

record 'v js_values =
  undefined_value :: 'v
  is_function :: "'v \<Rightarrow> bool"
  call :: "'v \<Rightarrow> 'v \<Rightarrow> 'v"

text \<open>
  A read function \<open>(get) => ...\<close> is a deterministic program whose only interaction
  with the store is calling \<open>get\<close>: it either returns a value or calls \<open>get(a)\<close> and
  continues with the answer. A write function \<open>(get, set, arg) => ...\<close> calls
  \<open>get(a)\<close> and \<open>set(a, v)\<close> and finally returns; what it returns is ignored.
\<close>

datatype ('a, 'v) reader =
  Return 'v
| Get 'a "'v \<Rightarrow> ('a, 'v) reader"

datatype ('a, 'v) writer =
  Done
| WGet 'a "'v \<Rightarrow> ('a, 'v) writer"
| WSet 'a 'v "('a, 'v) writer"

text \<open>
  An atom is a config object, compared by identity; \<open>'a\<close> is the type of identities
  and an environment \<open>atoms :: 'a \<Rightarrow> atom_config\<close> gives the object behind each.
  The properties are \<open>init\<close>, \<open>read\<close> and \<open>write\<close>; reading a property that the
  object does not have gives \<open>undefined\<close>, so a missing \<open>init\<close> is the undefined
  value and a missing \<open>write\<close> is \<open>None\<close>.
\<close>

record ('a, 'v) atom_config =
  atom_init :: 'v
  atom_read :: "('a, 'v) reader"
  atom_write :: "('v \<Rightarrow> ('a, 'v) writer) option"

text \<open>
  \<open>atom(read, write)\<close>: a first argument that is a function is the read function
  (\<open>Inl\<close>); anything else is the initial value (\<open>Inr\<close>) of a primitive atom, whose
  read function is \<open>(get) => get(config)\<close> and whose write function defaults to the
  functional-update writer. \<open>config\<close> is the identity of the object being built.
\<close>

definition atom ::
  "'v js_values \<Rightarrow> 'a \<Rightarrow> ('a, 'v) reader + 'v \<Rightarrow> ('v \<Rightarrow> ('a, 'v) writer) option
    \<Rightarrow> ('a, 'v) atom_config" where
  "atom js config rd wr =
     (case rd of
        Inl r \<Rightarrow> \<lparr>atom_init = undefined_value js, atom_read = r, atom_write = wr\<rparr>
      | Inr initialValue \<Rightarrow>
          \<lparr>atom_init = initialValue,
           atom_read = Get config Return,
           atom_write = Some (case wr of
               Some f \<Rightarrow> f
             | None \<Rightarrow> (\<lambda>arg.
                 if is_function js arg
                 then WGet config (\<lambda>cur. WSet config (call js arg cur) Done)
                 else WSet config arg Done))\<rparr>)"

text \<open>
  The state of an atom. A JavaScript \<open>Set\<close> iterates in insertion order and holds no
  duplicates: it is a list, and \<open>add\<close> appends an element that is not yet there.
  Listeners are callbacks of the binding layer; they are identified by a handle \<open>'l\<close>.
  What a listener does when it is called is the binding layer's business, not the
  store's: the store calls it, and the call is what is modelled.
\<close>

record ('a, 'l, 'v) atomState =
  atom_value :: 'v
  listeners :: "'l list"
  dependents :: "'a list"

definition set_add :: "'x \<Rightarrow> 'x list \<Rightarrow> 'x list" where
  "set_add x xs = (if x \<in> set xs then xs else xs @ [x])"

text \<open>
  What the store does to the outside is call functions it was given: an atom's read
  function (\<open>atom.read(get)\<close>), the \<open>get\<close> accessor handed to it, and the listeners.
  Each such call is recorded, in order, in a trace.
\<close>

datatype ('a, 'l) event =
  ReadCalled 'a
| GetCalled 'a 'a
| ListenerCalled 'a 'l

record ('a, 'l, 'v) world =
  atomStateMap :: "'a \<rightharpoonup> ('a, 'l, 'v) atomState"
  trace :: "('a, 'l) event list"

definition record_event :: "('a, 'l) event \<Rightarrow> ('a, 'l, 'v) world \<Rightarrow> ('a, 'l, 'v) world" where
  "record_event ev w = w\<lparr>trace := trace w @ [ev]\<rparr>"

definition getAtomState ::
  "('a \<Rightarrow> ('a, 'v) atom_config) \<Rightarrow> 'a \<Rightarrow> ('a, 'l, 'v) world
    \<Rightarrow> ('a, 'l, 'v) atomState \<times> ('a, 'l, 'v) world" where
  "getAtomState atoms a w =
     (case atomStateMap w a of
        Some atomState \<Rightarrow> (atomState, w)
      | None \<Rightarrow>
          (let atomState = \<lparr>atom_value = atom_init (atoms a), listeners = [], dependents = []\<rparr>
           in (atomState, w\<lparr>atomStateMap := (atomStateMap w)(a \<mapsto> atomState)\<rparr>)))"

text \<open>
  A state object is mutated through the reference \<open>getAtomState\<close> returned:
  \<open>mutate atoms a f\<close> is \<open>const s = getAtomState(a); s.field = ...\<close>. Where the
  source mutates a reference it obtained earlier, the entry exists and the lookup
  inside \<open>mutate\<close> finds that same object.
\<close>

definition mutate ::
  "('a \<Rightarrow> ('a, 'v) atom_config) \<Rightarrow> 'a \<Rightarrow> (('a, 'l, 'v) atomState \<Rightarrow> ('a, 'l, 'v) atomState)
    \<Rightarrow> ('a, 'l, 'v) world \<Rightarrow> ('a, 'l, 'v) world" where
  "mutate atoms a f w =
     (let (atomState, w0) = getAtomState atoms a w
      in w0\<lparr>atomStateMap := (atomStateMap w0)(a \<mapsto> f atomState)\<rparr>)"

text \<open>
  \<open>readAtom\<close> recurses through \<open>get\<close> and nothing bounds the recursion, so it takes
  fuel: the number of nested \<open>readAtom\<close> calls still allowed. \<open>None\<close> means the
  recursion went deeper than that; a recursion that goes deeper than every bound is
  one that never returns (a JavaScript engine ends it when the call stack is
  exhausted). \<open>run_read rec atoms atm r w\<close> runs the read
  function \<open>r\<close> of the atom \<open>atm\<close> with the \<open>get\<close> of \<open>readAtom\<close>; \<open>rec\<close> is the recursive
  \<open>readAtom\<close>.
\<close>

primrec run_read ::
  "('a \<Rightarrow> ('a, 'l, 'v) world \<Rightarrow> ('v \<times> ('a, 'l, 'v) world) option)
    \<Rightarrow> ('a \<Rightarrow> ('a, 'v) atom_config) \<Rightarrow> 'a \<Rightarrow> ('a, 'v) reader
    \<Rightarrow> ('a, 'l, 'v) world \<Rightarrow> ('v \<times> ('a, 'l, 'v) world) option" where
  "run_read rec atoms atm (Return v) w = Some (v, w)"
| "run_read rec atoms atm (Get a k) w =
     (let w0 = record_event (GetCalled atm a) w in
      if a = atm
      then run_read rec atoms atm (k (atom_value (fst (getAtomState atoms atm w0)))) w0
      else
        (case rec a (mutate atoms a (\<lambda>aState. aState\<lparr>dependents := set_add atm (dependents aState)\<rparr>) w0) of
           None \<Rightarrow> None
         | Some (v, w1) \<Rightarrow> run_read rec atoms atm (k v) w1))"

primrec readAtom ::
  "nat \<Rightarrow> ('a \<Rightarrow> ('a, 'v) atom_config) \<Rightarrow> 'a \<Rightarrow> ('a, 'l, 'v) world
    \<Rightarrow> ('v \<times> ('a, 'l, 'v) world) option" where
  "readAtom 0 atoms atm w = None"
| "readAtom (Suc n) atoms atm w =
     (let w0 = snd (getAtomState atoms atm w) in
      case run_read (readAtom n atoms) atoms atm (atom_read (atoms atm))
             (record_event (ReadCalled atm) w0) of
        None \<Rightarrow> None
      | Some (v, w1) \<Rightarrow> Some (v, mutate atoms atm (\<lambda>atomState. atomState\<lparr>atom_value := v\<rparr>) w1))"

text \<open>
  \<open>forEach\<close> over a set whose callback may fail to return. \<open>notify\<close> visits the
  dependents recursively and then calls the listeners; it takes fuel as \<open>readAtom\<close>
  does. Nothing that runs during \<open>notify\<close> adds to a set it iterates over.
\<close>

primrec forEach :: "('x \<Rightarrow> 's \<Rightarrow> 's option) \<Rightarrow> 'x list \<Rightarrow> 's \<Rightarrow> 's option" where
  "forEach f [] s = Some s"
| "forEach f (x # xs) s = (case f x s of None \<Rightarrow> None | Some s' \<Rightarrow> forEach f xs s')"

primrec notify ::
  "nat \<Rightarrow> ('a \<Rightarrow> ('a, 'v) atom_config) \<Rightarrow> 'a \<Rightarrow> ('a, 'l, 'v) world
    \<Rightarrow> ('a, 'l, 'v) world option" where
  "notify 0 atoms atm w = None"
| "notify (Suc n) atoms atm w =
     (let (atomState, w0) = getAtomState atoms atm w in
      case forEach (\<lambda>d w'. if d \<noteq> atm then notify n atoms d w' else Some w')
             (dependents atomState) w0 of
        None \<Rightarrow> None
      | Some w1 \<Rightarrow>
          Some (fold (\<lambda>l. record_event (ListenerCalled atm l)) (listeners atomState) w1))"

text \<open>
  \<open>writeAtom\<close> calls \<open>atom.write(get, set, value)\<close>. Calling a \<open>write\<close> that is
  \<open>undefined\<close> is a \<open>TypeError\<close>. \<open>run_write rec ntf atoms atm p w\<close> runs the write
  function's program \<open>p\<close> with the \<open>get\<close> and \<open>set\<close> of \<open>writeAtom\<close>; \<open>rec\<close> is the
  recursive \<open>writeAtom\<close> and \<open>ntf\<close> is \<open>notify\<close>.
\<close>

datatype js_error = TypeError

primrec run_write ::
  "('a \<Rightarrow> 'v \<Rightarrow> ('a, 'l, 'v) world \<Rightarrow> (js_error + ('a, 'l, 'v) world) option)
    \<Rightarrow> ('a \<Rightarrow> ('a, 'l, 'v) world \<Rightarrow> ('a, 'l, 'v) world option)
    \<Rightarrow> ('a \<Rightarrow> ('a, 'v) atom_config) \<Rightarrow> 'a \<Rightarrow> ('a, 'v) writer
    \<Rightarrow> ('a, 'l, 'v) world \<Rightarrow> (js_error + ('a, 'l, 'v) world) option" where
  "run_write rec ntf atoms atm Done w = Some (Inr w)"
| "run_write rec ntf atoms atm (WGet a k) w =
     (let (aState, w0) = getAtomState atoms a w
      in run_write rec ntf atoms atm (k (atom_value aState)) w0)"
| "run_write rec ntf atoms atm (WSet a v rest) w =
     (if a = atm
      then
        (case ntf atm (mutate atoms atm (\<lambda>atomState. atomState\<lparr>atom_value := v\<rparr>) w) of
           None \<Rightarrow> None
         | Some w1 \<Rightarrow> run_write rec ntf atoms atm rest w1)
      else
        (case rec a v w of
           None \<Rightarrow> None
         | Some (Inl err) \<Rightarrow> Some (Inl err)
         | Some (Inr w1) \<Rightarrow> run_write rec ntf atoms atm rest w1))"

primrec writeAtom ::
  "nat \<Rightarrow> ('a \<Rightarrow> ('a, 'v) atom_config) \<Rightarrow> 'a \<Rightarrow> 'v \<Rightarrow> ('a, 'l, 'v) world
    \<Rightarrow> (js_error + ('a, 'l, 'v) world) option" where
  "writeAtom 0 atoms atm v w = None"
| "writeAtom (Suc n) atoms atm v w =
     (let w0 = snd (getAtomState atoms atm w) in
      case atom_write (atoms atm) of
        None \<Rightarrow> Some (Inl TypeError)
      | Some write_fn \<Rightarrow> run_write (writeAtom n atoms) (notify n atoms) atoms atm (write_fn v) w0)"


definition empty_world :: "('a, 'l, 'v) world" where
  "empty_world = \<lparr>atomStateMap = Map.empty, trace = []\<rparr>"

section \<open>The useAtom hook\<close>

text \<open>
  The hook looks at two properties of the atom object it is given: \<open>write\<close> and the
  deprecated \<open>scope\<close>. An object has the key \<open>scope\<close> or not (\<open>'scope' in atom\<close>), and
  the value under the key is a scope or \<open>undefined\<close>; the optional \<open>scope\<close> argument
  of the hook is a scope or \<open>undefined\<close> likewise.
\<close>

record ('a, 'v, 's) hook_atom = "('a, 'v) atom_config" +
  scope :: "'s option option"

definition isWritable :: "('a, 'v, 'm) atom_config_scheme \<Rightarrow> bool" where
  "isWritable atm = (atom_write atm \<noteq> None)"

text \<open>
  The first statement of \<open>useAtom\<close>: the warnings printed and the scope in effect
  afterwards.
\<close>

definition useAtom_scope :: "('a, 'v, 's) hook_atom \<Rightarrow> 's option \<Rightarrow> string list \<times> 's option" where
  "useAtom_scope atm scope_arg =
     (case scope atm of
        Some own \<Rightarrow> ([''atom.scope is deprecated. Please do useAtom(atom, scope) instead.''], own)
      | None \<Rightarrow> ([], scope_arg))"

text \<open>
  \<open>const [store] = useContext(getScopeContext(scope))\<close>; \<open>getScopeContext\<close> and
  \<open>useContext\<close> belong to the context module and to React and are parameters.
\<close>

definition useAtom_store ::
  "('s option \<Rightarrow> 'ctx) \<Rightarrow> ('ctx \<Rightarrow> 'store \<times> 'rest) \<Rightarrow> ('a, 'v, 's) hook_atom \<Rightarrow> 's option \<Rightarrow> 'store" where
  "useAtom_store getScopeContext useContext atm scope_arg =
     (let ScopeContext = getScopeContext (snd (useAtom_scope atm scope_arg))
      in fst (useContext ScopeContext))"




text \<open>
  \<open>setAtom\<close> throws \<open>Error('not writable atom')\<close> itself; whatever
  \<open>store[WRITE_ATOM]\<close> throws passes through it unchanged. The store's writer is a
  parameter, from the store's state to an exception or the next state.
\<close>

datatype 'e hook_error =
  NotWritableAtom
| StoreError 'e

definition setAtom ::
  "(('a, 'v, 'm) atom_config_scheme \<Rightarrow> 'u \<Rightarrow> 'st \<Rightarrow> 'e + 'st)
    \<Rightarrow> ('a, 'v, 'm) atom_config_scheme \<Rightarrow> 'u \<Rightarrow> 'st \<Rightarrow> 'e hook_error + 'st" where
  "setAtom WRITE_ATOM atm update st =
     (if isWritable atm
      then (case WRITE_ATOM atm update st of Inl err \<Rightarrow> Inl (StoreError err) | Inr st' \<Rightarrow> Inr st')
      else Inl NotWritableAtom)"

section \<open>Asynchronous settlement\<close>

text \<open>
  Modelled from the spec: the record that the hook's store (\<open>./store\<close>, absent from
  the sources) keeps for a cell, as far as asynchronous settlement goes: the last
  value or error, the status (\<open>settled\<close>, \<open>pending-read\<close>, \<open>pending-write\<close>,
  \<open>errored\<close>) and the generation counter of the record.
\<close>

datatype cell_status = Settled | PendingRead | PendingWrite | Errored

record ('x, 'e) cell_record =
  cell_value :: "'x option"
  cell_error :: "'e option"
  status :: cell_status
  generation :: nat

text \<open>
  Modelled from the spec: the start of an asynchronous evaluation of a cell, absent
  from the sources. The record's generation counter is incremented on each new
  evaluation and the record becomes \<open>pending-read\<close>; the new generation is what the
  in-flight computation's continuation holds.
\<close>

definition begin_evaluation :: "('x, 'e) cell_record \<Rightarrow> nat \<times> ('x, 'e) cell_record" where
  "begin_evaluation r =
     (generation r + 1, r\<lparr>status := PendingRead, generation := generation r + 1\<rparr>)"

text \<open>
  Modelled from the spec: the continuation run when an in-flight computation settles,
  absent from the sources. The generation is checked before commit; on success the
  resolved value is stored and the status becomes \<open>settled\<close>, on failure the error is
  stored and the status becomes \<open>errored\<close>; the settlement of a superseded
  computation is ignored.
\<close>

definition settle :: "nat \<Rightarrow> 'e + 'x \<Rightarrow> ('x, 'e) cell_record \<Rightarrow> ('x, 'e) cell_record" where
  "settle g outcome r =
     (if g = generation r
      then (case outcome of
              Inr x \<Rightarrow> r\<lparr>cell_value := Some x, status := Settled\<rparr>
            | Inl err \<Rightarrow> r\<lparr>cell_error := Some err, status := Errored\<rparr>)
      else r)"

section \<open>Observing the store\<close>

text \<open>
  The state object of an atom as every function of the store sees it: what
  \<open>getAtomState\<close> returns.
\<close>

definition current ::
  "('a \<Rightarrow> ('a, 'v) atom_config) \<Rightarrow> ('a, 'l, 'v) world \<Rightarrow> 'a \<Rightarrow> ('a, 'l, 'v) atomState" where
  "current atoms w a = fst (getAtomState atoms a w)"


definition read_calls :: "'a \<Rightarrow> ('a, 'l, 'v) world \<Rightarrow> nat" where
  "read_calls a w = count_list (trace w) (ReadCalled a)"

text \<open>
  \<open>must_get y r\<close>: however the calls to \<open>get\<close> are answered, the read function \<open>r\<close>
  calls \<open>get(y)\<close>.
\<close>

primrec must_get :: "'a \<Rightarrow> ('a, 'v) reader \<Rightarrow> bool" where
  "must_get y (Return v) = False"
| "must_get y (Get a k) = (a = y \<or> (\<forall>v. must_get y (k v)))"


text \<open>
  The events recorded between a world and a later one, and among some events the
  cells that the read function of \<open>a\<close> passed to \<open>get\<close>, in call order.
\<close>

definition new_events :: "('a, 'l, 'v) world \<Rightarrow> ('a, 'l, 'v) world \<Rightarrow> ('a, 'l) event list" where
  "new_events w w' = drop (length (trace w)) (trace w')"

primrec passed_to_get :: "'a \<Rightarrow> ('a, 'l) event list \<Rightarrow> 'a list" where
  "passed_to_get a [] = []"
| "passed_to_get a (e # es) =
     (case e of
        GetCalled b x \<Rightarrow> (if b = a then [x] else [])
      | ReadCalled b \<Rightarrow> []
      | ListenerCalled b l \<Rightarrow> []) @ passed_to_get a es"

text \<open>
  \<open>no_self_get a r\<close>: the read function \<open>r\<close> of \<open>a\<close> never calls \<open>get(a)\<close>.
  \<open>own_value_primitive_only atoms\<close>: the only read functions that read their atom's
  own stored value are those of primitive atoms, \<open>(get) => get(config)\<close>.
\<close>

primrec no_self_get :: "'a \<Rightarrow> ('a, 'v) reader \<Rightarrow> bool" where
  "no_self_get a (Return v) = True"
| "no_self_get a (Get x k) = (x \<noteq> a \<and> (\<forall>v. no_self_get a (k v)))"

definition own_value_primitive_only :: "('a \<Rightarrow> ('a, 'v) atom_config) \<Rightarrow> bool" where
  "own_value_primitive_only atoms =
     (\<forall>x. atom_read (atoms x) = Get x Return \<or> no_self_get x (atom_read (atoms x)))"

text \<open>
  \<open>gets_below rank a r\<close>: every other atom that the read function \<open>r\<close> of \<open>a\<close> may
  pass to \<open>get\<close> has a smaller rank than \<open>a\<close>. When that holds of every atom the
  read functions form no cycle.
\<close>

primrec gets_below :: "('a \<Rightarrow> nat) \<Rightarrow> 'a \<Rightarrow> ('a, 'v) reader \<Rightarrow> bool" where
  "gets_below rank a (Return v) = True"
| "gets_below rank a (Get x k) = ((x = a \<or> rank x < rank a) \<and> (\<forall>v. gets_below rank a (k v)))"

definition acyclic_reads :: "('a \<Rightarrow> ('a, 'v) atom_config) \<Rightarrow> ('a \<Rightarrow> nat) \<Rightarrow> bool" where
  "acyclic_reads atoms rank = (\<forall>a. gets_below rank a (atom_read (atoms a)))"

text \<open>
  \<open>edges_recorded atoms w w'\<close>: the world \<open>w'\<close> comes after \<open>w\<close>; no dependents
  edge of \<open>w\<close> is missing in \<open>w'\<close>, and for every call \<open>get(x)\<close> that an atom \<open>b\<close>
  other than \<open>x\<close> has made in between, \<open>b\<close> is among the dependents of \<open>x\<close> in \<open>w'\<close>.
\<close>

definition edges_recorded ::
  "('a \<Rightarrow> ('a, 'v) atom_config) \<Rightarrow> ('a, 'l, 'v) world \<Rightarrow> ('a, 'l, 'v) world \<Rightarrow> bool" where
  "edges_recorded atoms w w' =
     (\<exists>evs. trace w' = trace w @ evs \<and>
        (\<forall>b x. GetCalled b x \<in> set evs \<longrightarrow> x \<noteq> b \<longrightarrow> b \<in> set (dependents (current atoms w' x))) \<and>
        (\<forall>x. set (dependents (current atoms w x)) \<subseteq> set (dependents (current atoms w' x))))"

text \<open>
  Two worlds agree on what a read can see when the primitive atoms (those whose read
  function is \<open>(get) => get(config)\<close>) have the same stored values in both.
\<close>

definition same_primitive_values ::
  "('a \<Rightarrow> ('a, 'v) atom_config) \<Rightarrow> ('a, 'l, 'v) world \<Rightarrow> ('a, 'l, 'v) world \<Rightarrow> bool" where
  "same_primitive_values atoms w w' =
     (\<forall>x. atom_read (atoms x) = Get x Return \<longrightarrow>
          atom_value (current atoms w x) = atom_value (current atoms w' x))"

text \<open>
  \<open>read(a); read(a)\<close> with nothing in between: the two values returned and the
  number of times the read function of \<open>a\<close> was called by the two reads.
\<close>

definition read_twice ::
  "nat \<Rightarrow> ('a \<Rightarrow> ('a, 'v) atom_config) \<Rightarrow> 'a \<Rightarrow> ('a, 'l, 'v) world \<Rightarrow> ('v \<times> 'v \<times> nat) option" where
  "read_twice n atoms a w =
     (case readAtom n atoms a w of
        None \<Rightarrow> None
      | Some (v1, w1) \<Rightarrow>
          (case readAtom n atoms a w1 of
             None \<Rightarrow> None
           | Some (v2, w2) \<Rightarrow> Some (v1, v2, read_calls a w2 - read_calls a w)))"

section \<open>Example atoms\<close>

text \<open>
  A small universe of values for the concrete runs: numbers, \<open>undefined\<close>, and the
  functions \<open>() => v\<close>.
\<close>

datatype example_value = Undefined | Num int | ConstFn example_value

fun example_call :: "example_value \<Rightarrow> example_value \<Rightarrow> example_value" where
  "example_call (ConstFn v) x = v"
| "example_call f x = Undefined"

fun example_is_function :: "example_value \<Rightarrow> bool" where
  "example_is_function (ConstFn v) = True"
| "example_is_function f = False"

definition example_js :: "example_value js_values" where
  "example_js = \<lparr>undefined_value = Undefined, is_function = example_is_function, call = example_call\<rparr>"

fun example_plus :: "example_value \<Rightarrow> example_value \<Rightarrow> example_value" where
  "example_plus (Num a) (Num b) = Num (a + b)"
| "example_plus x y = Undefined"

text \<open>Two derived atoms that read each other.\<close>

definition two_cycle :: "nat \<Rightarrow> (nat, example_value) atom_config" where
  "two_cycle x =
     (if x = 0 then atom example_js 0 (Inl (Get 1 Return)) None
      else atom example_js 1 (Inl (Get 0 Return)) None)"






text \<open>
  A derived atom \<open>3\<close> that reads the flag \<open>0\<close> and then atom \<open>1\<close> when the flag is 1
  and atom \<open>2\<close> otherwise. It is read with the flag at 1 (\<open>toggle_world1\<close>), the flag
  is written to 2 (\<open>toggle_world2\<close>), and it is read again (\<open>toggle_world3\<close>).
\<close>

definition toggle_atoms :: "nat \<Rightarrow> (nat, example_value) atom_config" where
  "toggle_atoms x =
     (if x = 0 then atom example_js 0 (Inr (Num 1)) None
      else if x = 1 then atom example_js 1 (Inr (Num 5)) None
      else if x = 2 then atom example_js 2 (Inr (Num 7)) None
      else atom example_js 3
             (Inl (Get 0 (\<lambda>flag. if flag = Num 1 then Get 1 Return else Get 2 Return))) None)"

definition toggle_world1 :: "(nat, string, example_value) world" where
  "toggle_world1 =
     (case readAtom 3 toggle_atoms 3 empty_world of Some (v, w) \<Rightarrow> w | None \<Rightarrow> empty_world)"

definition toggle_world2 :: "(nat, string, example_value) world" where
  "toggle_world2 =
     (case writeAtom 3 toggle_atoms 0 (Num 2) toggle_world1 of
        Some (Inr w) \<Rightarrow> w
      | Some (Inl err) \<Rightarrow> empty_world
      | None \<Rightarrow> empty_world)"

definition toggle_world3 :: "(nat, string, example_value) world" where
  "toggle_world3 =
     (case readAtom 3 toggle_atoms 3 toggle_world2 of Some (v, w) \<Rightarrow> w | None \<Rightarrow> empty_world)"

text \<open>
  Atoms that count their own reads: \<open>atom((get) => (get(self) ?? 0) + 1)\<close>.
\<close>

definition counter_atoms :: "nat \<Rightarrow> (nat, example_value) atom_config" where
  "counter_atoms x =
     atom example_js x
       (Inl (Get x (\<lambda>own. Return (example_plus (if own = Undefined then Num 0 else own) (Num 1)))))
       None"

text \<open>
  The scenario of the specification: \<open>price = 10\<close> (atom \<open>0\<close>) and
  \<open>doubled = price * 2\<close> (atom \<open>1\<close>).
\<close>

definition doubled_atoms :: "nat \<Rightarrow> (nat, example_value) atom_config" where
  "doubled_atoms x =
     (if x = 0 then atom example_js 0 (Inr (Num 10)) None
      else atom example_js 1 (Inl (Get 0 (\<lambda>price. Return (example_plus price price)))) None)"

section \<open>Properties of the hook\<close>

text \<open>
  C7. Writing through the hook to an atom with no write function fails with the
  hook's own not-writable error, whatever the store would do; for an atom with a write
  function the hook hands the update to the store and never raises that error itself:
  the outcome is the store's.
\<close>

theorem setAtom_not_writable:
  "(atom_write atm = None \<longrightarrow> setAtom WRITE_ATOM atm update st = Inl NotWritableAtom) \<and>
   (atom_write atm \<noteq> None \<longrightarrow>
      setAtom WRITE_ATOM atm update st \<noteq> Inl NotWritableAtom \<and>
      setAtom WRITE_ATOM atm update st = map_sum StoreError id (WRITE_ATOM atm update st))"
  by (auto simp: setAtom_def isWritable_def map_sum_def split: sum.splits)

theorem setAtom_not_writable_witness:
  "setAtom (\<lambda>a u st. Inr (st + u)) (atom example_js (0::nat) (Inl (Return (Num 1))) None) (5::int) 10
     = (Inl NotWritableAtom :: unit hook_error + int) \<and>
   setAtom (\<lambda>a u st. Inr (st + u)) (atom example_js (0::nat) (Inr (Num 1)) None) (5::int) 10
     = (Inr 15 :: unit hook_error + int)"
  using setAtom_not_writable [of "atom example_js (0::nat) (Inl (Return (Num 1))) None"
                                 "\<lambda>a u st. (Inr (st + u) :: unit + int)" "5::int" "10::int"]
        setAtom_not_writable [of "atom example_js (0::nat) (Inr (Num 1)) None"
                                 "\<lambda>a u st. (Inr (st + u) :: unit + int)" "5::int" "10::int"]
  by (simp add: atom_def)



text \<open>
  C10. An atom object that has its own \<open>scope\<close> property overrides the scope argument
  of \<open>useAtom\<close>: the store is the one of the atom's scope, whatever argument was
  given.
\<close>

theorem useAtom_scope_override:
  "scope atm = Some own \<Longrightarrow>
     snd (useAtom_scope atm scope_arg) = own \<and>
     useAtom_store getScopeContext useContext atm scope_arg = fst (useContext (getScopeContext own))"
  by (simp add: useAtom_scope_def useAtom_store_def)

theorem useAtom_scope_override_witness:
  "scope (atom_config.extend (atom example_js (0::nat) (Inr (Num 1)) None)
            (hook_atom.fields (Some (Some ''mine'')))) = Some (Some ''mine'') \<and>
   useAtom_store (\<lambda>sc. (sc, ''context'')) (\<lambda>ctx. (fst ctx, ()))
     (atom_config.extend (atom example_js (0::nat) (Inr (Num 1)) None)
        (hook_atom.fields (Some (Some ''mine''))))
     (Some ''given'') = Some ''mine''"
  using useAtom_scope_override [of
      "atom_config.extend (atom example_js (0::nat) (Inr (Num 1)) None)
         (hook_atom.fields (Some (Some ''mine'')))"
      "Some ''mine''" "Some ''given''" "\<lambda>sc. (sc, ''context'')" "\<lambda>ctx. (fst ctx, ())"]
  by (simp add: atom_config.extend_def hook_atom.fields_def atom_def)

section \<open>Properties of asynchronous settlement\<close>

text \<open>
  C6. Two asynchronous evaluations of a cell are started in sequence, before either
  settles. When the second one has resolved with \<open>x2\<close>, the later settlement of the
  first, superseded one (a value or an error) changes nothing: the cell is settled
  with the second computation's result. The same record results when the superseded
  computation settles first.
\<close>

theorem superseded_settlement_discarded:
  "settle (fst (begin_evaluation r)) outcome1
     (settle (fst (begin_evaluation (snd (begin_evaluation r)))) (Inr x2)
        (snd (begin_evaluation (snd (begin_evaluation r)))))
   = (snd (begin_evaluation (snd (begin_evaluation r))))\<lparr>cell_value := Some x2, status := Settled\<rparr> \<and>
   settle (fst (begin_evaluation (snd (begin_evaluation r)))) (Inr x2)
     (settle (fst (begin_evaluation r)) outcome1
        (snd (begin_evaluation (snd (begin_evaluation r)))))
   = (snd (begin_evaluation (snd (begin_evaluation r))))\<lparr>cell_value := Some x2, status := Settled\<rparr>"
  by (simp add: settle_def begin_evaluation_def)

section \<open>Lemmas about the store's state\<close>

lemma fst_getAtomState [simp]: "fst (getAtomState atoms a w) = current atoms w a"
  by (simp add: current_def)

lemma current_alt:
  "current atoms w a =
     (case atomStateMap w a of
        Some s \<Rightarrow> s
      | None \<Rightarrow> \<lparr>atom_value = atom_init (atoms a), listeners = [], dependents = []\<rparr>)"
  by (simp add: current_def getAtomState_def Let_def split: option.splits)

lemma map_getAtomState:
  "atomStateMap (snd (getAtomState atoms a w)) = (atomStateMap w)(a \<mapsto> current atoms w a)"
  by (auto simp: current_alt getAtomState_def Let_def split: option.splits)

lemma trace_getAtomState [simp]: "trace (snd (getAtomState atoms a w)) = trace w"
  by (simp add: getAtomState_def Let_def split: option.splits)

lemma current_getAtomState [simp]:
  "current atoms (snd (getAtomState atoms b w)) a = current atoms w a"
  by (simp add: current_alt [of atoms "snd (getAtomState atoms b w)"] map_getAtomState)
     (simp add: current_alt)

lemma getAtomState_idem [simp]:
  "snd (getAtomState atoms a (snd (getAtomState atoms a w))) = snd (getAtomState atoms a w)"
  by (simp add: getAtomState_def Let_def split: option.splits)

lemma mutate_alt:
  "mutate atoms a f w =
     (snd (getAtomState atoms a w))\<lparr>atomStateMap := (atomStateMap w)(a \<mapsto> f (current atoms w a))\<rparr>"
  by (simp add: mutate_def split_def map_getAtomState)

lemma trace_mutate [simp]: "trace (mutate atoms a f w) = trace w"
  by (simp add: mutate_alt)

lemma current_mutate [simp]:
  "current atoms (mutate atoms b f w) a = (if a = b then f (current atoms w b) else current atoms w a)"
  by (simp add: current_alt [of atoms "mutate atoms b f w"] mutate_alt)
     (simp add: current_alt)

lemma trace_record_event [simp]: "trace (record_event ev w) = trace w @ [ev]"
  by (simp add: record_event_def)

lemma current_record_event [simp]: "current atoms (record_event ev w) a = current atoms w a"
  by (simp add: current_alt record_event_def)

lemma trace_fold_record_event [simp]:
  "trace (fold (\<lambda>l. record_event (ev l)) ls w) = trace w @ map ev ls"
  by (induction ls arbitrary: w) simp_all

lemma current_fold_record_event [simp]:
  "current atoms (fold (\<lambda>l. record_event (ev l)) ls w) a = current atoms w a"
  by (induction ls arbitrary: w) simp_all


declare notify.simps(2) [simp del]



section \<open>Properties of the simplified store\<close>

subsection \<open>Cyclic reads\<close>

lemma run_read_must_get:
  assumes "must_get y r" and "y \<noteq> atm" and "\<And>w. rec y w = None"
  shows "run_read rec atoms atm r w = None"
  using assms(1)
proof (induction r arbitrary: w)
  case (Return v)
  then show ?case by simp
next
  case (Get a k)
  show ?case
  proof (cases "a = y")
    case True
    with assms(2,3) show ?thesis by (simp add: Let_def)
  next
    case False
    with Get.prems have all: "\<And>v. must_get y (k v)" by simp
    have "\<And>v w. run_read rec atoms atm (k v) w = None"
      by (rule Get.IH) (simp_all add: all)
    then show ?thesis by (simp add: Let_def split: option.splits)
  qed
qed

lemma readAtom_cycle_diverges:
  fixes w :: "('a, 'l, 'v) world"
  assumes "\<forall>x \<in> C. nxt x \<in> C \<and> nxt x \<noteq> x \<and> must_get (nxt x) (atom_read (atoms x))"
  shows "a \<in> C \<Longrightarrow> readAtom n atoms a w = None"
proof (induction n arbitrary: a w)
  case 0
  then show ?case by simp
next
  case (Suc n)
  from assms Suc.prems have nx: "nxt a \<in> C" "nxt a \<noteq> a" "must_get (nxt a) (atom_read (atoms a))"
    by auto
  have "\<And>w' :: ('a, 'l, 'v) world. readAtom n atoms (nxt a) w' = None"
    using Suc.IH nx(1) by blast
  then have "\<And>w' :: ('a, 'l, 'v) world. run_read (readAtom n atoms) atoms a (atom_read (atoms a)) w' = None"
    using run_read_must_get [OF nx(3) nx(2)] by blast
  then show ?case by (simp add: Let_def)
qed

lemma two_cycle_reads:
  "\<forall>x \<in> {0, 1::nat}. (1 - x) \<in> {0, 1::nat} \<and> 1 - x \<noteq> x \<and> must_get (1 - x) (atom_read (two_cycle x))"
  by (simp add: two_cycle_def atom_def)

text \<open>
  C4, as the store has it. \<open>readAtom\<close> has no cycle detection and no error of its
  own. Take cells that reach themselves through other cells: each cell \<open>x\<close> of \<open>C\<close>
  has a read function that is bound to call \<open>get\<close> on another cell \<open>nxt x\<close> of \<open>C\<close>.
  Reading any of them recurses without bound: at no depth does \<open>readAtom\<close> return, a
  value or an error, and so it never reaches the assignment that memoizes a value.
\<close>

theorem readAtom_cyclic_never_returns:
  fixes w :: "('a, 'l, 'v) world"
  assumes "\<forall>x \<in> C. nxt x \<in> C \<and> nxt x \<noteq> x \<and> must_get (nxt x) (atom_read (atoms x))"
    and "a \<in> C"
  shows "readAtom n atoms a w = None"
  using readAtom_cycle_diverges [OF assms] .

theorem readAtom_cyclic_never_returns_witness:
  "must_get 1 (atom_read (two_cycle 0)) \<and> must_get 0 (atom_read (two_cycle 1)) \<and>
   readAtom 9 two_cycle 0 (empty_world :: (nat, unit, example_value) world) = None"
proof -
  have "must_get 1 (atom_read (two_cycle 0)) \<and> must_get 0 (atom_read (two_cycle 1))"
    by (simp add: two_cycle_def atom_def)
  then show ?thesis
    using readAtom_cyclic_never_returns [OF two_cycle_reads, of 0 9
            "empty_world :: (nat, unit, example_value) world"]
    by simp
qed

text \<open>
  The claim as stated fails on two cells that read each other: reading one of them
  does not fail with an error, it does not return at all.
\<close>

theorem readAtom_two_cycle_counterexample:
  "\<not> (\<exists>n r. readAtom n two_cycle 0 (empty_world :: (nat, unit, example_value) world) = Some r)"
  using readAtom_cycle_diverges [OF two_cycle_reads, of 0 _
          "empty_world :: (nat, unit, example_value) world"]
  by simp

subsection \<open>Propagation\<close>

lemma run_write_WGet [simp]:
  "run_write rec ntf atoms atm (WGet a k) w =
     run_write rec ntf atoms atm (k (atom_value (current atoms w a))) (snd (getAtomState atoms a w))"
  by (simp add: split_def)

declare run_write.simps(2) [simp del]


declare writeAtom.simps(2) [simp del]





lemma count_list_ListenerCalled [simp]:
  "count_list (map (ListenerCalled a) ls) (ListenerCalled a l) = count_list ls l"
  by (induction ls) auto

lemma count_list_ListenerCalled_other [simp]:
  "b \<noteq> a \<Longrightarrow> count_list (map (ListenerCalled a) ls) (ListenerCalled b l) = 0"
  by (induction ls) auto















subsection \<open>Writing a primitive atom\<close>



subsection \<open>Reading and the dependents sets\<close>

lemma run_read_Get:
  "run_read rec atoms atm (Get a k) w =
     (if a = atm
      then run_read rec atoms atm (k (atom_value (current atoms w atm))) (record_event (GetCalled atm a) w)
      else
        (case rec a (mutate atoms a (\<lambda>aState. aState\<lparr>dependents := set_add atm (dependents aState)\<rparr>)
                       (record_event (GetCalled atm a) w)) of
           None \<Rightarrow> None
         | Some (v, w1) \<Rightarrow> run_read rec atoms atm (k v) w1))"
  by (simp add: Let_def)

declare run_read.simps(2) [simp del]

lemma readAtom_Suc:
  "readAtom (Suc n) atoms atm w =
     (case run_read (readAtom n atoms) atoms atm (atom_read (atoms atm))
             (record_event (ReadCalled atm) (snd (getAtomState atoms atm w))) of
        None \<Rightarrow> None
      | Some (v, w1) \<Rightarrow> Some (v, mutate atoms atm (\<lambda>atomState. atomState\<lparr>atom_value := v\<rparr>) w1))"
  by (simp add: Let_def)

declare readAtom.simps(2) [simp del]

lemma edges_recorded_refl: "edges_recorded atoms w w"
  by (simp add: edges_recorded_def)

lemma edges_recorded_trans:
  assumes "edges_recorded atoms w w1" and "edges_recorded atoms w1 w2"
  shows "edges_recorded atoms w w2"
proof -
  from assms(1) obtain evs1 where
    e1: "trace w1 = trace w @ evs1"
      "\<And>b x. GetCalled b x \<in> set evs1 \<Longrightarrow> x \<noteq> b \<Longrightarrow> b \<in> set (dependents (current atoms w1 x))"
      "\<And>x. set (dependents (current atoms w x)) \<subseteq> set (dependents (current atoms w1 x))"
    unfolding edges_recorded_def by blast
  from assms(2) obtain evs2 where
    e2: "trace w2 = trace w1 @ evs2"
      "\<And>b x. GetCalled b x \<in> set evs2 \<Longrightarrow> x \<noteq> b \<Longrightarrow> b \<in> set (dependents (current atoms w2 x))"
      "\<And>x. set (dependents (current atoms w1 x)) \<subseteq> set (dependents (current atoms w2 x))"
    unfolding edges_recorded_def by blast
  show ?thesis
    unfolding edges_recorded_def
  proof (intro exI [of _ "evs1 @ evs2"] conjI allI impI)
    show "trace w2 = trace w @ evs1 @ evs2" by (simp add: e1(1) e2(1))
  next
    fix b x assume "GetCalled b x \<in> set (evs1 @ evs2)" and "x \<noteq> b"
    then show "b \<in> set (dependents (current atoms w2 x))"
      using e1(2) [of b x] e2(2) [of b x] e2(3) [of x] by auto
  next
    fix x show "set (dependents (current atoms w x)) \<subseteq> set (dependents (current atoms w2 x))"
      using e1(3) e2(3) by blast
  qed
qed

lemma edges_recorded_same:
  assumes "trace w' = trace w @ evs" and "\<And>b x. GetCalled b x \<in> set evs \<Longrightarrow> x = b"
    and "\<And>x. dependents (current atoms w' x) = dependents (current atoms w x)"
  shows "edges_recorded atoms w w'"
  unfolding edges_recorded_def using assms by (intro exI [of _ evs]) auto

lemma edges_recorded_get:
  assumes "a \<noteq> atm"
  shows "edges_recorded atoms w
           (mutate atoms a (\<lambda>aState. aState\<lparr>dependents := set_add atm (dependents aState)\<rparr>)
              (record_event (GetCalled atm a) w))"
  unfolding edges_recorded_def
  by (intro exI [of _ "[GetCalled atm a]"]) (auto simp: set_add_def)

lemma run_read_edges:
  assumes rec: "\<And>a w v w'. rec a w = Some (v, w') \<Longrightarrow> edges_recorded atoms w w'"
  shows "run_read rec atoms atm r w = Some (v, w') \<Longrightarrow> edges_recorded atoms w w'"
proof (induction r arbitrary: w)
  case (Return x)
  then show ?case by (simp add: edges_recorded_refl)
next
  case (Get a k)
  show ?case
  proof (cases "a = atm")
    case True
    with Get.prems have
      "run_read rec atoms atm (k (atom_value (current atoms w atm))) (record_event (GetCalled atm a) w)
         = Some (v, w')"
      by (simp add: run_read_Get)
    then have "edges_recorded atoms (record_event (GetCalled atm a) w) w'"
      by (rule Get.IH [OF rangeI])
    moreover have "edges_recorded atoms w (record_event (GetCalled atm a) w)"
      by (rule edges_recorded_same [where evs = "[GetCalled atm a]"]) (simp_all add: True)
    ultimately show ?thesis by (blast intro: edges_recorded_trans)
  next
    case False
    let ?m = "mutate atoms a (\<lambda>aState. aState\<lparr>dependents := set_add atm (dependents aState)\<rparr>)
                (record_event (GetCalled atm a) w)"
    from Get.prems False obtain v1 w1 where
      r: "rec a ?m = Some (v1, w1)" and k: "run_read rec atoms atm (k v1) w1 = Some (v, w')"
      by (auto simp: run_read_Get split: option.splits)
    have "edges_recorded atoms w ?m" by (rule edges_recorded_get [OF False])
    moreover have "edges_recorded atoms ?m w1" by (rule rec [OF r])
    moreover have "edges_recorded atoms w1 w'" by (rule Get.IH [OF rangeI k])
    ultimately show ?thesis by (blast intro: edges_recorded_trans)
  qed
qed

lemma readAtom_edges:
  "readAtom n atoms a w = Some (v, w') \<Longrightarrow> edges_recorded atoms w w'"
proof (induction n arbitrary: a w v w')
  case 0
  then show ?case by simp
next
  case (Suc n)
  let ?w0 = "record_event (ReadCalled a) (snd (getAtomState atoms a w))"
  from Suc.prems obtain w1 where
    r: "run_read (readAtom n atoms) atoms a (atom_read (atoms a)) ?w0 = Some (v, w1)"
    and w': "w' = mutate atoms a (\<lambda>atomState. atomState\<lparr>atom_value := v\<rparr>) w1"
    by (auto simp: readAtom_Suc split: option.splits)
  have "edges_recorded atoms w ?w0"
    by (rule edges_recorded_same [where evs = "[ReadCalled a]"]) simp_all
  moreover have "edges_recorded atoms ?w0 w1"
    using r by (rule run_read_edges [rotated]) (rule Suc.IH)
  moreover have "edges_recorded atoms w1 w'"
    unfolding w' by (rule edges_recorded_same [where evs = "[]"]) simp_all
  ultimately show ?case by (blast intro: edges_recorded_trans)
qed

lemma passed_to_get_iff: "x \<in> set (passed_to_get a evs) \<longleftrightarrow> GetCalled a x \<in> set evs"
  by (induction evs) (auto split: event.splits)

text \<open>
  C3, as the store has it. An atom state has no \<open>dependencies\<close> set; \<open>get\<close> only
  ever adds to \<open>dependents\<close>. After a recomputation of \<open>a\<close> that returns, every cell
  other than \<open>a\<close> that was passed to \<open>get\<close> during the recomputation has \<open>a\<close> among
  its dependents, and every dependents edge that was there before is still there:
  edges of an earlier evaluation are kept.
\<close>

theorem dependents_only_grow:
  assumes "readAtom n atoms a w = Some (v, w')"
  shows "trace w' = trace w @ new_events w w' \<and>
         (\<forall>x \<in> set (passed_to_get a (new_events w w')). x \<noteq> a \<longrightarrow> a \<in> set (dependents (current atoms w' x))) \<and>
         (\<forall>x. set (dependents (current atoms w x)) \<subseteq> set (dependents (current atoms w' x)))"
proof -
  from readAtom_edges [OF assms] obtain evs where
    e: "trace w' = trace w @ evs"
      "\<And>b x. GetCalled b x \<in> set evs \<Longrightarrow> x \<noteq> b \<Longrightarrow> b \<in> set (dependents (current atoms w' x))"
      "\<And>x. set (dependents (current atoms w x)) \<subseteq> set (dependents (current atoms w' x))"
    unfolding edges_recorded_def by blast
  have "new_events w w' = evs" by (simp add: new_events_def e(1))
  then show ?thesis using e by (auto simp: passed_to_get_iff)
qed

lemma toggle_second_read:
  "readAtom 3 toggle_atoms 3 toggle_world2 = Some (Num 7, toggle_world3)"
proof -
  have "map_option fst (readAtom 3 toggle_atoms 3 toggle_world2) = Some (Num 7)"
    by code_simp
  then show ?thesis
    by (cases "readAtom 3 toggle_atoms 3 toggle_world2") (auto simp: toggle_world3_def)
qed

theorem dependents_only_grow_witness:
  "readAtom 3 toggle_atoms 3 toggle_world2 = Some (Num 7, toggle_world3) \<and>
   passed_to_get 3 (new_events toggle_world2 toggle_world3) = [0, 2] \<and>
   3 \<in> set (dependents (current toggle_atoms toggle_world3 0)) \<and>
   3 \<in> set (dependents (current toggle_atoms toggle_world3 2)) \<and>
   set (dependents (current toggle_atoms toggle_world2 1))
     \<subseteq> set (dependents (current toggle_atoms toggle_world3 1))"
proof -
  have p: "passed_to_get 3 (new_events toggle_world2 toggle_world3) = [0, 2]"
    by code_simp
  show ?thesis
    using dependents_only_grow [OF toggle_second_read] toggle_second_read p
    by simp
qed

text \<open>
  The claim as stated fails on an atom that stops reading a cell: after the second
  read of atom \<open>3\<close> the cells passed to \<open>get\<close> were \<open>0\<close> and \<open>2\<close>, and yet atom \<open>3\<close> is
  still a dependent of cell \<open>1\<close>.
\<close>

theorem dependency_accuracy_counterexample:
  "passed_to_get 3 (new_events toggle_world2 toggle_world3) = [0, 2] \<and>
   dependents (current toggle_atoms toggle_world3 1) = [3]"
  by code_simp

subsection \<open>Reading twice\<close>

lemma run_read_acyclic:
  fixes w :: "('a, 'l, 'v) world"
  assumes rec: "\<And>x (w :: ('a, 'l, 'v) world). rank x < rank atm \<Longrightarrow>
      \<exists>v w1 evs. rec x w = Some (v, w1) \<and> trace w1 = trace w @ evs \<and>
        (\<forall>y. ReadCalled y \<in> set evs \<longrightarrow> rank y < rank atm)"
  shows "gets_below rank atm r \<Longrightarrow>
     \<exists>v w1 evs. run_read rec atoms atm r w = Some (v, w1) \<and> trace w1 = trace w @ evs \<and>
       (\<forall>y. ReadCalled y \<in> set evs \<longrightarrow> rank y < rank atm)"
proof (induction r arbitrary: w)
  case (Return x)
  then show ?case by simp
next
  case (Get a k)
  then have below: "\<And>v. gets_below rank atm (k v)" and a: "a = atm \<or> rank a < rank atm"
    by auto
  show ?case
  proof (cases "a = atm")
    case True
    let ?w0 = "record_event (GetCalled atm a) w"
    from Get.IH [OF rangeI below, of "atom_value (current atoms w atm)" ?w0]
    obtain v w1 evs where
      "run_read rec atoms atm (k (atom_value (current atoms w atm))) ?w0 = Some (v, w1)"
      "trace w1 = trace ?w0 @ evs" "\<forall>y. ReadCalled y \<in> set evs \<longrightarrow> rank y < rank atm"
      by blast
    then show ?thesis
      using True by (intro exI [of _ v] exI [of _ w1] exI [of _ "GetCalled atm a # evs"])
        (simp add: run_read_Get)
  next
    case False
    let ?m = "mutate atoms a (\<lambda>aState. aState\<lparr>dependents := set_add atm (dependents aState)\<rparr>)
                (record_event (GetCalled atm a) w)"
    from a False have "rank a < rank atm" by simp
    from rec [OF this, of ?m] obtain v1 w1 evs1 where
      r: "rec a ?m = Some (v1, w1)" "trace w1 = trace ?m @ evs1"
        "\<forall>y. ReadCalled y \<in> set evs1 \<longrightarrow> rank y < rank atm"
      by blast
    from Get.IH [OF rangeI below, of v1 w1] obtain v w2 evs2 where
      k: "run_read rec atoms atm (k v1) w1 = Some (v, w2)" "trace w2 = trace w1 @ evs2"
        "\<forall>y. ReadCalled y \<in> set evs2 \<longrightarrow> rank y < rank atm"
      by blast
    show ?thesis
      using False r k
      by (intro exI [of _ v] exI [of _ w2] exI [of _ "GetCalled atm a # evs1 @ evs2"])
        (auto simp: run_read_Get)
  qed
qed

lemma readAtom_acyclic:
  fixes w :: "('a, 'l, 'v) world"
  assumes "acyclic_reads atoms rank"
  shows "rank a < n \<Longrightarrow>
     \<exists>v w1 evs. readAtom n atoms a w = Some (v, w1) \<and> trace w1 = trace w @ ReadCalled a # evs \<and>
       (\<forall>y. ReadCalled y \<in> set evs \<longrightarrow> rank y < rank a)"
proof (induction n arbitrary: a w)
  case 0
  then show ?case by simp
next
  case (Suc n)
  let ?w0 = "record_event (ReadCalled a) (snd (getAtomState atoms a w))"
  have rec: "\<exists>v w1 evs. readAtom n atoms x s = Some (v, w1) \<and> trace w1 = trace s @ evs \<and>
        (\<forall>y. ReadCalled y \<in> set evs \<longrightarrow> rank y < rank a)"
    if "rank x < rank a" for x and s :: "('a, 'l, 'v) world"
  proof -
    from that Suc.prems have "rank x < n" by simp
    from Suc.IH [where a = x and w = s, OF this] obtain v w1 evs where
      "readAtom n atoms x s = Some (v, w1)" "trace w1 = trace s @ ReadCalled x # evs"
      "\<forall>y. ReadCalled y \<in> set evs \<longrightarrow> rank y < rank x"
      by blast
    then show ?thesis
      using that by (intro exI [of _ v] exI [of _ w1] exI [of _ "ReadCalled x # evs"]) auto
  qed
  have "gets_below rank a (atom_read (atoms a))"
    using assms by (simp add: acyclic_reads_def)
  from run_read_acyclic [where rec = "readAtom n atoms" and atoms = atoms and w = ?w0, OF rec this]
  obtain v w1 evs where
    "run_read (readAtom n atoms) atoms a (atom_read (atoms a)) ?w0 = Some (v, w1)"
    "trace w1 = trace ?w0 @ evs" "\<forall>y. ReadCalled y \<in> set evs \<longrightarrow> rank y < rank a"
    by blast
  then show ?case
    by (intro exI [of _ v] exI [of _ "mutate atoms a (\<lambda>atomState. atomState\<lparr>atom_value := v\<rparr>) w1"]
          exI [of _ evs]) (simp add: readAtom_Suc)
qed

lemma same_primitive_values_trans:
  "same_primitive_values atoms w w1 \<Longrightarrow> same_primitive_values atoms w1 w2
     \<Longrightarrow> same_primitive_values atoms w w2"
  by (simp add: same_primitive_values_def)

lemma same_primitive_values_same:
  "(\<And>x. atom_value (current atoms w' x) = atom_value (current atoms w x))
     \<Longrightarrow> same_primitive_values atoms w w'"
  by (simp add: same_primitive_values_def)

lemma run_read_keeps_values:
  assumes rec: "\<And>a w v w'. rec a w = Some (v, w') \<Longrightarrow> same_primitive_values atoms w w'"
  shows "run_read rec atoms atm r w = Some (v, w') \<Longrightarrow> same_primitive_values atoms w w'"
proof (induction r arbitrary: w)
  case (Return x)
  then show ?case by (simp add: same_primitive_values_def)
next
  case (Get a k)
  show ?case
  proof (cases "a = atm")
    case True
    with Get.prems have
      "run_read rec atoms atm (k (atom_value (current atoms w atm))) (record_event (GetCalled atm a) w)
         = Some (v, w')"
      by (simp add: run_read_Get)
    then have "same_primitive_values atoms (record_event (GetCalled atm a) w) w'"
      by (rule Get.IH [OF rangeI])
    then show ?thesis by (simp add: same_primitive_values_def)
  next
    case False
    let ?m = "mutate atoms a (\<lambda>aState. aState\<lparr>dependents := set_add atm (dependents aState)\<rparr>)
                (record_event (GetCalled atm a) w)"
    from Get.prems False obtain v1 w1 where
      r: "rec a ?m = Some (v1, w1)" and k: "run_read rec atoms atm (k v1) w1 = Some (v, w')"
      by (auto simp: run_read_Get split: option.splits)
    have "same_primitive_values atoms w ?m" by (rule same_primitive_values_same) simp
    moreover have "same_primitive_values atoms ?m w1" by (rule rec [OF r])
    moreover have "same_primitive_values atoms w1 w'" by (rule Get.IH [OF rangeI k])
    ultimately show ?thesis by (blast intro: same_primitive_values_trans)
  qed
qed

lemma readAtom_keeps_values:
  "readAtom n atoms a w = Some (v, w') \<Longrightarrow> same_primitive_values atoms w w'"
proof (induction n arbitrary: a w v w')
  case 0
  then show ?case by simp
next
  case (Suc n)
  let ?w0 = "record_event (ReadCalled a) (snd (getAtomState atoms a w))"
  from Suc.prems obtain w1 where
    r: "run_read (readAtom n atoms) atoms a (atom_read (atoms a)) ?w0 = Some (v, w1)"
    and w': "w' = mutate atoms a (\<lambda>atomState. atomState\<lparr>atom_value := v\<rparr>) w1"
    by (auto simp: readAtom_Suc split: option.splits)
  show ?case
  proof (cases "atom_read (atoms a) = Get a Return")
    case True
    with r have "v = atom_value (current atoms w a)" "w1 = record_event (GetCalled a a) ?w0"
      by (simp_all add: run_read_Get)
    then show ?thesis
      unfolding w' by (intro same_primitive_values_same) simp
  next
    case False
    have "same_primitive_values atoms ?w0 w1"
      using r by (rule run_read_keeps_values [rotated]) (rule Suc.IH)
    then show ?thesis
      unfolding w' using False by (auto simp: same_primitive_values_def)
  qed
qed

lemma run_read_same_values:
  assumes rec: "\<And>a w w' v w1. rec a w = Some (v, w1) \<Longrightarrow> same_primitive_values atoms w w'
      \<Longrightarrow> \<exists>w1'. rec a w' = Some (v, w1') \<and> same_primitive_values atoms w1 w1'"
  shows "no_self_get atm r \<Longrightarrow> run_read rec atoms atm r w = Some (v, w1)
     \<Longrightarrow> same_primitive_values atoms w w'
     \<Longrightarrow> \<exists>w1'. run_read rec atoms atm r w' = Some (v, w1') \<and> same_primitive_values atoms w1 w1'"
proof (induction r arbitrary: w w')
  case (Return x)
  then show ?case by auto
next
  case (Get a k)
  then have ne: "a \<noteq> atm" and ns: "\<And>u. no_self_get atm (k u)"
    by auto
  let ?m = "\<lambda>w. mutate atoms a (\<lambda>aState. aState\<lparr>dependents := set_add atm (dependents aState)\<rparr>)
                (record_event (GetCalled atm a) w)"
  from Get.prems(2) ne obtain v1 wa where
    r: "rec a (?m w) = Some (v1, wa)" and k: "run_read rec atoms atm (k v1) wa = Some (v, w1)"
    by (auto simp: run_read_Get split: option.splits)
  have "same_primitive_values atoms (?m w) (?m w')"
    using Get.prems(3) by (simp add: same_primitive_values_def)
  from rec [OF r this] obtain wa' where
    r': "rec a (?m w') = Some (v1, wa')" and s: "same_primitive_values atoms wa wa'"
    by blast
  from Get.IH [OF rangeI ns k s] obtain w1' where
    "run_read rec atoms atm (k v1) wa' = Some (v, w1')" "same_primitive_values atoms w1 w1'"
    by blast
  then show ?case
    using ne r' by (auto simp: run_read_Get)
qed

lemma readAtom_same_values:
  assumes "own_value_primitive_only atoms"
  shows "readAtom n atoms a w = Some (v, w1) \<Longrightarrow> same_primitive_values atoms w w'
     \<Longrightarrow> \<exists>w1'. readAtom n atoms a w' = Some (v, w1') \<and> same_primitive_values atoms w1 w1'"
proof (induction n arbitrary: a w w' v w1)
  case 0
  then show ?case by simp
next
  case (Suc n)
  let ?w0 = "\<lambda>w. record_event (ReadCalled a) (snd (getAtomState atoms a w))"
  from Suc.prems(1) obtain wa where
    r: "run_read (readAtom n atoms) atoms a (atom_read (atoms a)) (?w0 w) = Some (v, wa)"
    and w1: "w1 = mutate atoms a (\<lambda>atomState. atomState\<lparr>atom_value := v\<rparr>) wa"
    by (auto simp: readAtom_Suc split: option.splits)
  have s0: "same_primitive_values atoms (?w0 w) (?w0 w')"
    using Suc.prems(2) by (simp add: same_primitive_values_def)
  have "\<exists>wa'. run_read (readAtom n atoms) atoms a (atom_read (atoms a)) (?w0 w') = Some (v, wa')
          \<and> same_primitive_values atoms wa wa'"
  proof (cases "atom_read (atoms a) = Get a Return")
    case True
    with r have v: "v = atom_value (current atoms w a)"
      and wa: "wa = record_event (GetCalled a a) (?w0 w)"
      by (simp_all add: run_read_Get)
    have "atom_value (current atoms w' a) = atom_value (current atoms w a)"
      using Suc.prems(2) True by (simp add: same_primitive_values_def)
    then have "run_read (readAtom n atoms) atoms a (atom_read (atoms a)) (?w0 w')
        = Some (v, record_event (GetCalled a a) (?w0 w'))"
      by (simp add: True v run_read_Get)
    moreover have "same_primitive_values atoms wa (record_event (GetCalled a a) (?w0 w'))"
      using Suc.prems(2) by (simp add: wa same_primitive_values_def)
    ultimately show ?thesis
      by blast
  next
    case False
    with assms have "no_self_get a (atom_read (atoms a))"
      by (auto simp: own_value_primitive_only_def)
    then show ?thesis
      using r s0 by (rule run_read_same_values [rotated]) (rule Suc.IH)
  qed
  then obtain wa' where
    "run_read (readAtom n atoms) atoms a (atom_read (atoms a)) (?w0 w') = Some (v, wa')"
    "same_primitive_values atoms wa wa'"
    by blast
  then show ?case
    unfolding w1 by (auto simp: readAtom_Suc same_primitive_values_def)
qed

lemma count_list_ReadCalled:
  fixes rank :: "'a \<Rightarrow> nat"
  shows "trace w1 = trace w @ ReadCalled a # evs \<Longrightarrow> \<forall>y. ReadCalled y \<in> set evs \<longrightarrow> rank y < rank a
     \<Longrightarrow> read_calls a w1 = read_calls a w + 1"
proof -
  assume t: "trace w1 = trace w @ ReadCalled a # evs"
    and below: "\<forall>y. ReadCalled y \<in> set evs \<longrightarrow> rank y < rank a"
  from below have "ReadCalled a \<notin> set evs" by auto
  then have "count_list evs (ReadCalled a) = 0" by (rule count_notin)
  then show ?thesis by (simp add: read_calls_def t)
qed

text \<open>
  C2, as the store has it. \<open>readAtom\<close> calls \<open>atom.read\<close> on every call: nothing is
  memoized. Take a store whose read functions form no cycle and where only primitive
  atoms read their own stored value. Then reading a cell twice in a row returns, both
  reads return the same value, and the cell's read function has been called exactly
  twice, once by each read.
\<close>

theorem read_twice_not_memoized:
  fixes w :: "('a, 'l, 'v) world"
  assumes "acyclic_reads atoms rank" and "own_value_primitive_only atoms" and "rank a < n"
  shows "\<exists>v. read_twice n atoms a w = Some (v, v, 2)"
proof -
  from readAtom_acyclic [OF assms(1,3), of w] obtain v w1 evs1 where
    r1: "readAtom n atoms a w = Some (v, w1)" "trace w1 = trace w @ ReadCalled a # evs1"
      "\<forall>y. ReadCalled y \<in> set evs1 \<longrightarrow> rank y < rank a"
    by blast
  from readAtom_same_values [OF assms(2) r1(1) readAtom_keeps_values [OF r1(1)]] obtain w2 where
    r2: "readAtom n atoms a w1 = Some (v, w2)"
    by blast
  from readAtom_acyclic [OF assms(1,3), of w1] r2 obtain evs2 where
    t2: "trace w2 = trace w1 @ ReadCalled a # evs2"
      "\<forall>y. ReadCalled y \<in> set evs2 \<longrightarrow> rank y < rank a"
    by auto
  have "read_calls a w1 = read_calls a w + 1"
    by (rule count_list_ReadCalled [OF r1(2,3)])
  moreover have "read_calls a w2 = read_calls a w1 + 1"
    by (rule count_list_ReadCalled [OF t2])
  ultimately have "read_twice n atoms a w = Some (v, v, 2)"
    by (simp add: read_twice_def r1(1) r2)
  then show ?thesis ..
qed

lemma doubled_reads:
  "acyclic_reads doubled_atoms (\<lambda>x. x)" "own_value_primitive_only doubled_atoms"
  by (auto simp: acyclic_reads_def own_value_primitive_only_def doubled_atoms_def atom_def)

theorem read_twice_not_memoized_witness:
  "acyclic_reads doubled_atoms (\<lambda>x. x) \<and> own_value_primitive_only doubled_atoms \<and>
   read_twice 2 doubled_atoms 1 (empty_world :: (nat, string, example_value) world)
     = Some (Num 20, Num 20, 2)"
proof -
  have "map_option fst (readAtom 2 doubled_atoms 1 (empty_world :: (nat, string, example_value) world))
      = Some (Num 20)"
    by code_simp
  moreover have "(1::nat) < 2"
    by simp
  ultimately show ?thesis
    using read_twice_not_memoized [OF doubled_reads, of 1 2
            "empty_world :: (nat, string, example_value) world"] doubled_reads
    by (auto simp: read_twice_def split: option.splits)
qed

text \<open>
  The claim as stated fails in both halves. Reading \<open>doubled\<close> twice calls its read
  function twice, not at most once; and an atom that reads its own stored value and
  adds one returns 1 on the first read and 2 on the second.
\<close>

theorem read_twice_counterexample:
  "read_twice 2 doubled_atoms 1 (empty_world :: (nat, string, example_value) world)
     = Some (Num 20, Num 20, 2) \<and>
   read_twice 1 counter_atoms 0 (empty_world :: (nat, string, example_value) world)
     = Some (Num 1, Num 2, 2)"
  by code_simp

end
